theory Spec2Isabelle
  imports Complex_Main
begin

chapter \<open>The engine\<close>

section \<open>Values, records and exceptions\<close>

text \<open>
  A product record is a Python dict from field names to values.  The fields the engine
  reads hold numbers or text (the loader replaces every missing cell by the empty string).
  Python floats and ints are modelled as exact rationals: no overflow, no binary rounding
  error, no infinity and no NaN.  Text is a list of 8-bit characters, read as the code
  points below 256.
\<close>

datatype pyval = Num rat | Str string

type_synonym item = "string \<rightharpoonup> pyval"

text \<open>
  The exceptions the engine can raise.  \<open>NonFinite\<close> is not a Python exception: it marks
  a run in which \<open>float()\<close> returned an infinity or a NaN, which the rational model does
  not follow any further.
\<close>

datatype error = KeyError | TypeError | ValueError | ZeroDivisionError | IndexError | NonFinite

type_synonym 'a result = "error + 'a"

definition bind :: "'a result \<Rightarrow> ('a \<Rightarrow> 'b result) \<Rightarrow> 'b result" where
  "bind r f = (case r of Inl e \<Rightarrow> Inl e | Inr x \<Rightarrow> f x)"

text \<open>Truth value of a Python object: zero and the empty string are falsy.\<close>

fun truthy :: "pyval \<Rightarrow> bool" where
  "truthy (Num x) = (x \<noteq> 0)"
| "truthy (Str s) = (s \<noteq> [])"

section \<open>Character classes\<close>

definition is_digit :: "char \<Rightarrow> bool" where
  "is_digit c = (c \<in> set ''0123456789'')"

text \<open>The whitespace of \<open>\s\<close>, of \<open>str.strip\<close> and of \<open>float()\<close> among the code points below 256.\<close>

definition is_space :: "char \<Rightarrow> bool" where
  "is_space c = (c \<in> set [CHR 0x09, CHR 0x0A, CHR 0x0B, CHR 0x0C, CHR 0x0D,
                           CHR 0x1C, CHR 0x1D, CHR 0x1E, CHR 0x1F, CHR 0x20, CHR 0x85, CHR 0xA0])"

section \<open>Regular expressions and \<open>re.search\<close>\<close>

text \<open>
  The constructs the catalog's patterns use: one character of a class (\<open>\s\<close>, \<open>\d\<close>, a
  literal), a greedy \<open>+\<close> over a class, a greedy \<open>?\<close>, a named group, concatenation.
\<close>

datatype cls = Space | Digit | Ch char

datatype regex = One cls | Plus cls | Opt regex | Grp string regex | Cat regex regex | Eps

type_synonym groups = "string \<rightharpoonup> string"

fun in_cls :: "cls \<Rightarrow> char \<Rightarrow> bool" where
  "in_cls Space c = is_space c"
| "in_cls Digit c = is_digit c"
| "in_cls (Ch d) c = (c = d)"

text \<open>
  \<open>rx_match r (s, g)\<close> lists every way \<open>r\<close> can match a prefix of \<open>s\<close>, as the rest of the
  text with the groups captured so far, in the order in which the backtracking matcher
  tries them: a greedy \<open>+\<close> the longest run first, a greedy \<open>?\<close> the present branch first.
\<close>

fun rx_match :: "regex \<Rightarrow> string \<times> groups \<Rightarrow> (string \<times> groups) list" where
  "rx_match (One c) (s, g) =
     (case s of [] \<Rightarrow> [] | x # xs \<Rightarrow> if in_cls c x then [(xs, g)] else [])"
| "rx_match (Plus c) (s, g) =
     map (\<lambda>j. (drop j s, g)) (rev [1 ..< Suc (length (takeWhile (in_cls c) s))])"
| "rx_match (Opt r) (s, g) = rx_match r (s, g) @ [(s, g)]"
| "rx_match (Grp n r) (s, g) =
     map (\<lambda>(s', g'). (s', g'(n \<mapsto> take (length s - length s') s))) (rx_match r (s, g))"
| "rx_match (Cat a b) (s, g) = concat (map (rx_match b) (rx_match a (s, g)))"
| "rx_match Eps (s, g) = [(s, g)]"

text \<open>\<open>re.search\<close>: the leftmost start position at which the pattern matches, with its first match.\<close>

fun re_search :: "regex \<Rightarrow> string \<Rightarrow> groups option" where
  "re_search r [] =
     (case rx_match r ([], Map.empty) of (s', g) # _ \<Rightarrow> Some g | [] \<Rightarrow> None)"
| "re_search r (x # xs) =
     (case rx_match r (x # xs, Map.empty) of (s', g) # _ \<Rightarrow> Some g | [] \<Rightarrow> re_search r xs)"

definition lit :: "string \<Rightarrow> regex" where
  "lit s = foldr (\<lambda>c r. Cat (One (Ch c)) r) s Eps"

definition seq :: "regex list \<Rightarrow> regex" where
  "seq rs = foldr Cat rs Eps"

section \<open>Numbers: \<open>int()\<close>, \<open>float()\<close>, \<open>round(x, 2)\<close> and arithmetic\<close>

definition digit_val :: "char \<Rightarrow> nat" where
  "digit_val c = of_char c - 48"

definition dec :: "string \<Rightarrow> nat" where
  "dec s = foldl (\<lambda>n c. 10 * n + digit_val c) 0 s"

text \<open>
  \<open>int(s)\<close>.  The engine calls it only on text captured by \<open>\d+\<close>; the signs, blanks and
  underscores that Python also accepts never reach it and are not modelled, nor is the
  interpreter's limit on the length of a digit string.
\<close>

definition py_int :: "string \<Rightarrow> int result" where
  "py_int s = (if s \<noteq> [] \<and> list_all is_digit s then Inr (int (dec s)) else Inl ValueError)"

definition strip :: "string \<Rightarrow> string" where
  "strip s = rev (dropWhile is_space (rev (dropWhile is_space s)))"

definition lower_ascii :: "char \<Rightarrow> char" where
  "lower_ascii c =
     (if 65 \<le> (of_char c :: nat) \<and> (of_char c :: nat) \<le> 90 then char_of (of_char c + (32::nat)) else c)"

text \<open>An underscore is accepted only between two digits.\<close>

fun underscores_ok :: "bool \<Rightarrow> string \<Rightarrow> bool" where
  "underscores_ok prev_digit [] = True"
| "underscores_ok prev_digit (c # cs) =
     (if c = CHR ''_'' then prev_digit \<and> cs \<noteq> [] \<and> is_digit (hd cs) \<and> underscores_ok False cs
      else underscores_ok (is_digit c) cs)"

text \<open>The exponent part: empty, or \<open>e\<close>/\<open>E\<close>, an optional sign and at least one digit.\<close>

definition exponent :: "string \<Rightarrow> int option" where
  "exponent s =
     (case s of
        [] \<Rightarrow> Some 0
      | c # r \<Rightarrow>
          if c = CHR ''e'' \<or> c = CHR ''E'' then
            (let (sg, ds) = (case r of
                               [] \<Rightarrow> (1, [])
                             | d # r' \<Rightarrow> if d = CHR ''-'' then (- 1, r')
                                         else if d = CHR ''+'' then (1, r') else (1, r))
             in if ds \<noteq> [] \<and> list_all is_digit ds then Some (sg * int (dec ds)) else None)
          else None)"

text \<open>
  \<open>float(s)\<close> on text: blanks stripped at both ends, an optional sign, then \<open>inf\<close>,
  \<open>infinity\<close> or \<open>nan\<close> in any case, or a decimal literal with at least one digit, an
  optional point and an optional exponent.  Anything else raises \<open>ValueError\<close>; in
  particular no currency symbol and no comma is accepted.
\<close>

definition py_float :: "string \<Rightarrow> rat result" where
  "py_float s =
     (let t = strip s;
          (sg, u) = (case t of
                       [] \<Rightarrow> (1, [])
                     | c # r \<Rightarrow> if c = CHR ''-'' then (- 1, r)
                                else if c = CHR ''+'' then (1, r) else (1, t))
      in if map lower_ascii u \<in> set [''inf'', ''infinity'', ''nan''] then Inl NonFinite
         else if \<not> underscores_ok False u then Inl ValueError
         else
           (let v = filter (\<lambda>c. c \<noteq> CHR ''_'') u;
                ip = takeWhile is_digit v;
                r1 = dropWhile is_digit v;
                (fp, r2) = (case r1 of
                              [] \<Rightarrow> ([], [])
                            | c # r \<Rightarrow> if c = CHR ''.'' then (takeWhile is_digit r, dropWhile is_digit r)
                                       else ([], r1))
            in if ip = [] \<and> fp = [] then Inl ValueError
               else (case exponent r2 of
                       None \<Rightarrow> Inl ValueError
                     | Some e \<Rightarrow>
                         Inr (sg * (of_nat (dec (ip @ fp)) / 10 ^ length fp)
                                * (if 0 \<le> e then 10 ^ nat e else 1 / 10 ^ nat (- e))))))"

text \<open>Rounding to the nearest integer, ties to the even neighbour.\<close>

definition round_half_even :: "rat \<Rightarrow> int" where
  "round_half_even x =
     (let f = \<lfloor>x\<rfloor>; d = x - of_int f
      in if d < 1 / 2 then f else if 1 / 2 < d then f + 1 else if even f then f else f + 1)"

text \<open>\<open>round(x, 2)\<close> on the exact value of \<open>x\<close>.\<close>

definition round2 :: "rat \<Rightarrow> rat" where
  "round2 x = of_int (round_half_even (x * 100)) / 100"

definition py_round2 :: "pyval \<Rightarrow> pyval result" where
  "py_round2 v = (case v of Num x \<Rightarrow> Inr (Num (round2 x)) | Str s \<Rightarrow> Inl TypeError)"

text \<open>\<open>v * n\<close> for an int \<open>n\<close>: text is repeated.\<close>

definition mul_int :: "pyval \<Rightarrow> int \<Rightarrow> pyval result" where
  "mul_int v n =
     (case v of Num x \<Rightarrow> Inr (Num (x * of_int n)) | Str s \<Rightarrow> Inr (Str (concat (replicate (nat n) s))))"

text \<open>\<open>v * y\<close> and \<open>y * v\<close> for a float \<open>y\<close>.\<close>

definition mul_float :: "pyval \<Rightarrow> rat \<Rightarrow> pyval result" where
  "mul_float v y = (case v of Num x \<Rightarrow> Inr (Num (x * y)) | Str s \<Rightarrow> Inl TypeError)"

definition py_add :: "pyval \<Rightarrow> pyval \<Rightarrow> pyval result" where
  "py_add v w =
     (case (v, w) of
        (Num x, Num y) \<Rightarrow> Inr (Num (x + y))
      | (Str a, Str b) \<Rightarrow> Inr (Str (a @ b))
      | _ \<Rightarrow> Inl TypeError)"

text \<open>\<open>v - y\<close> for a float \<open>y\<close>.\<close>

definition sub_float :: "pyval \<Rightarrow> rat \<Rightarrow> pyval result" where
  "sub_float v y = (case v of Num x \<Rightarrow> Inr (Num (x - y)) | Str s \<Rightarrow> Inl TypeError)"

text \<open>\<open>v / n\<close> for an int \<open>n\<close>; the operand types are checked before the divisor.\<close>

definition div_int :: "pyval \<Rightarrow> int \<Rightarrow> pyval result" where
  "div_int v n =
     (case v of
        Num x \<Rightarrow> if n = 0 then Inl ZeroDivisionError else Inr (Num (x / of_int n))
      | Str s \<Rightarrow> Inl TypeError)"

text \<open>\<open>item[k]\<close>, \<open>item.get(k, d)\<close> and \<open>match.group(n)\<close>.\<close>

definition lookup :: "item \<Rightarrow> string \<Rightarrow> pyval result" where
  "lookup it k = (case it k of None \<Rightarrow> Inl KeyError | Some v \<Rightarrow> Inr v)"

definition get_or :: "item \<Rightarrow> string \<Rightarrow> pyval \<Rightarrow> pyval" where
  "get_or it k d = (case it k of None \<Rightarrow> d | Some v \<Rightarrow> v)"

definition group :: "groups \<Rightarrow> string \<Rightarrow> string result" where
  "group m n = (case m n of None \<Rightarrow> Inl IndexError | Some s \<Rightarrow> Inr s)"

section \<open>The strategies\<close>

text \<open>The four subclasses of \<open>PromoProcessor\<close> under \<open>processors/\<close>.\<close>

datatype processor = BuyGetFreeProcessor | DollarDiscountProcessor | PricePerLbProcessor | SavingsProcessor

definition buy_get_free_pattern :: regex where
  "buy_get_free_pattern =
     seq [lit ''Buy'', Plus Space, Grp ''quantity'' (Plus Digit), Opt (One (Ch (CHR '',''))),
          Plus Space, lit ''Get'', Plus Space, Grp ''free'' (Plus Digit), Plus Space, lit ''Free'']"

definition buy_get_discount_pattern :: regex where
  "buy_get_discount_pattern =
     seq [lit ''Buy'', Plus Space, Grp ''quantity'' (Plus Digit), One (Ch (CHR '','')),
          Plus Space, lit ''get'', Plus Space, Grp ''free'' (Plus Digit), Plus Space,
          Grp ''discount'' (Plus Digit), One (Ch (CHR ''%'')), Plus Space, lit ''off'']"

definition dollar_discount_pattern :: regex where
  "dollar_discount_pattern =
     seq [One (Ch (CHR ''$'')),
          Grp ''discount'' (Cat (Plus Digit) (Opt (Cat (One (Ch (CHR ''.''))) (Plus Digit)))),
          Plus Space, lit ''off'']"

definition price_per_lb_pattern :: regex where
  "price_per_lb_pattern =
     seq [One (Ch (CHR ''$'')),
          Grp ''price_per_lb''
            (Cat (Plus Digit) (Opt (Cat (One (Ch (CHR ''.''))) (Cat (One Digit) (One Digit))))),
          lit ''/lb'']"

definition savings_pattern :: regex where
  "savings_pattern =
     seq [lit ''Save'', Plus Space, One (Ch (CHR ''$'')),
          Grp ''savings''
            (Cat (Plus Digit) (Opt (Cat (One (Ch (CHR ''.''))) (Cat (One Digit) (One Digit)))))]"

fun patterns :: "processor \<Rightarrow> regex list" where
  "patterns BuyGetFreeProcessor = [buy_get_free_pattern, buy_get_discount_pattern]"
| "patterns DollarDiscountProcessor = [dollar_discount_pattern]"
| "patterns PricePerLbProcessor = [price_per_lb_pattern]"
| "patterns SavingsProcessor = [savings_pattern]"

text \<open>
  \<open>discount = match.groupdict().get('discount')\<close> followed by \<open>if discount:\<close>: the branch is
  taken when the group took part in the match with a non-empty text.
\<close>

definition discount_group :: "groups \<Rightarrow> string option" where
  "discount_group m = (case m ''discount'' of None \<Rightarrow> None | Some ds \<Rightarrow> if ds = [] then None else Some ds)"

text \<open>
  The base price of \<open>BuyGetFreeProcessor.calculate_coupon\<close>:
  \<open>price = item.get('unit_price') or item.get("sale_price") or item.get("regular_price", 0)\<close>,
  then \<open>price = float(price) if price else 0\<close>.
\<close>

definition coupon_price_value :: "item \<Rightarrow> pyval" where
  "coupon_price_value it =
     (case it ''unit_price'' of
        Some v \<Rightarrow> if truthy v then v
                 else (case it ''sale_price'' of
                         Some w \<Rightarrow> if truthy w then w else get_or it ''regular_price'' (Num 0)
                       | None \<Rightarrow> get_or it ''regular_price'' (Num 0))
      | None \<Rightarrow> (case it ''sale_price'' of
                   Some w \<Rightarrow> if truthy w then w else get_or it ''regular_price'' (Num 0)
                 | None \<Rightarrow> get_or it ''regular_price'' (Num 0)))"

definition to_float :: "pyval \<Rightarrow> rat result" where
  "to_float v = (case v of Num x \<Rightarrow> Inr x | Str s \<Rightarrow> py_float s)"

definition coupon_price :: "item \<Rightarrow> rat result" where
  "coupon_price it = (let price = coupon_price_value it in if truthy price then to_float price else Inr 0)"

fun calculate_deal :: "processor \<Rightarrow> item \<Rightarrow> groups \<Rightarrow> item result" where
  "calculate_deal BuyGetFreeProcessor it m =
     bind (group m ''quantity'') (\<lambda>qs. bind (py_int qs) (\<lambda>quantity.
     bind (group m ''free'') (\<lambda>fs. bind (py_int fs) (\<lambda>free.
     bind (case discount_group m of
             Some ds \<Rightarrow>
               bind (py_int ds) (\<lambda>d.
               bind (lookup it ''regular_price'') (\<lambda>rp.
               bind (mul_int rp quantity) (\<lambda>full_price_total.
               bind (mul_float rp (1 - of_int d / 100)) (\<lambda>discounted_each.
               bind (mul_int discounted_each free) (\<lambda>discounted_total.
               py_add full_price_total discounted_total)))))
           | None \<Rightarrow>
               bind (lookup it ''regular_price'') (\<lambda>rp. mul_int rp quantity))
       (\<lambda>volume_deals_price.
     bind (div_int volume_deals_price (quantity + free)) (\<lambda>unit_price.
     bind (py_round2 volume_deals_price) (\<lambda>v.
     bind (py_round2 unit_price) (\<lambda>u.
     Inr (it(''volume_deals_price'' \<mapsto> v, ''unit_price'' \<mapsto> u,
             ''digital_coupon_price'' \<mapsto> Str []))))))))))"
| "calculate_deal DollarDiscountProcessor it m =
     bind (group m ''discount'') (\<lambda>ds. bind (py_float ds) (\<lambda>discount_value.
     bind (sub_float (get_or it ''price'' (Num 0)) discount_value) (\<lambda>volume_deals_price.
     bind (py_round2 volume_deals_price) (\<lambda>v.
     bind (div_int volume_deals_price 1) (\<lambda>q.
     bind (py_round2 q) (\<lambda>u.
     Inr (it(''volume_deals_price'' \<mapsto> v, ''unit_price'' \<mapsto> u,
             ''digital_coupon_price'' \<mapsto> Str []))))))))"
| "calculate_deal PricePerLbProcessor it m =
     bind (group m ''price_per_lb'') (\<lambda>ps. bind (py_float ps) (\<lambda>price_per_lb.
     bind (mul_float (get_or it ''weight'' (Num 1)) price_per_lb) (\<lambda>total_price.
     bind (py_round2 total_price) (\<lambda>v.
     Inr (it(''volume_deals_price'' \<mapsto> v, ''unit_price'' \<mapsto> Num (round2 price_per_lb),
             ''digital_coupon_price'' \<mapsto> Str []))))))"
| "calculate_deal SavingsProcessor it m =
     bind (group m ''savings'') (\<lambda>ss. bind (py_float ss) (\<lambda>savings_value.
     bind (sub_float (get_or it ''price'' (Num 0)) savings_value) (\<lambda>volume_deals_price.
     bind (py_round2 volume_deals_price) (\<lambda>v.
     bind (div_int volume_deals_price 1) (\<lambda>q.
     bind (py_round2 q) (\<lambda>u.
     Inr (it(''volume_deals_price'' \<mapsto> v, ''unit_price'' \<mapsto> u,
             ''digital_coupon_price'' \<mapsto> Str []))))))))"

fun calculate_coupon :: "processor \<Rightarrow> item \<Rightarrow> groups \<Rightarrow> item result" where
  "calculate_coupon BuyGetFreeProcessor it m =
     bind (group m ''quantity'') (\<lambda>qs. bind (py_int qs) (\<lambda>quantity.
     bind (group m ''free'') (\<lambda>fs. bind (py_int fs) (\<lambda>free.
     bind (case discount_group m of
             Some ds \<Rightarrow>
               bind (py_int ds) (\<lambda>d.
               bind (coupon_price it) (\<lambda>price.
               Inr (price * of_int quantity + (price * (1 - of_int d / 100)) * of_int free)))
           | None \<Rightarrow>
               bind (coupon_price it) (\<lambda>price. Inr (price * of_int quantity)))
       (\<lambda>volume_deals_price.
     bind (div_int (Num volume_deals_price) (quantity + free)) (\<lambda>unit_price.
     bind (py_round2 unit_price) (\<lambda>u.
     Inr (it(''unit_price'' \<mapsto> u, ''digital_coupon_price'' \<mapsto> Num volume_deals_price)))))))))"
| "calculate_coupon DollarDiscountProcessor it m =
     bind (group m ''discount'') (\<lambda>ds. bind (py_float ds) (\<lambda>discount_value.
     bind (sub_float (get_or it ''price'' (Num 0)) discount_value) (\<lambda>volume_deals_price.
     bind (div_int volume_deals_price 1) (\<lambda>q.
     bind (py_round2 q) (\<lambda>u.
     Inr (it(''unit_price'' \<mapsto> u, ''digital_coupon_price'' \<mapsto> Num (round2 discount_value))))))))"
| "calculate_coupon PricePerLbProcessor it m =
     bind (group m ''price_per_lb'') (\<lambda>ps. bind (py_float ps) (\<lambda>price_per_lb.
     bind (lookup it ''unit_price'') (\<lambda>up.
     bind (mul_float (get_or it ''weight'' (Num 1)) price_per_lb) (\<lambda>w.
     bind (case (up, w) of (Num a, Num b) \<Rightarrow> Inr (Num (a - b)) | _ \<Rightarrow> Inl TypeError) (\<lambda>d.
     bind (py_round2 d) (\<lambda>unit_price.
     Inr (it(''unit_price'' \<mapsto> unit_price, ''digital_coupon_price'' \<mapsto> Num price_per_lb))))))))"
| "calculate_coupon SavingsProcessor it m =
     bind (group m ''savings'') (\<lambda>ss. bind (py_float ss) (\<lambda>savings_value.
     bind (sub_float (get_or it ''unit_price'' (Num 0)) savings_value) (\<lambda>volume_deals_price.
     bind (div_int volume_deals_price 1) (\<lambda>q.
     bind (py_round2 q) (\<lambda>u.
     Inr (it(''unit_price'' \<mapsto> u, ''digital_coupon_price'' \<mapsto> Num (round2 savings_value))))))))"

section \<open>\<open>PromoProcessor.process_single_item\<close>\<close>

datatype mode = Deal | Coupon

fun description_key :: "mode \<Rightarrow> string" where
  "description_key Deal = ''volume_deals_description''"
| "description_key Coupon = ''digital_coupon_short_description''"

fun calculate :: "mode \<Rightarrow> processor \<Rightarrow> item \<Rightarrow> groups \<Rightarrow> item result" where
  "calculate Deal = calculate_deal"
| "calculate Coupon = calculate_coupon"

text \<open>
  \<open>re.search(pattern, updated_item.get(key, ""))\<close>: a missing description is searched as
  the empty text, a description that is not text raises \<open>TypeError\<close>.
\<close>

definition search_description :: "regex \<Rightarrow> item \<Rightarrow> string \<Rightarrow> groups option result" where
  "search_description pattern it k =
     (case it k of
        None \<Rightarrow> Inr (re_search pattern [])
      | Some (Str d) \<Rightarrow> Inr (re_search pattern d)
      | Some (Num x) \<Rightarrow> Inl TypeError)"

text \<open>
  The inner loop over one processor's patterns.  \<open>None\<close>: no pattern matched and the outer
  loop goes on.  On a match the log line reads the description of the input record
  (\<open>item_data[key]\<close>), the strategy runs, and both loops end.
\<close>

fun try_patterns :: "mode \<Rightarrow> processor \<Rightarrow> regex list \<Rightarrow> item \<Rightarrow> item \<Rightarrow> item result option" where
  "try_patterns md p [] item_data updated_item = None"
| "try_patterns md p (pattern # rest) item_data updated_item =
     (case search_description pattern updated_item (description_key md) of
        Inl e \<Rightarrow> Some (Inl e)
      | Inr (Some m) \<Rightarrow>
          Some (bind (lookup item_data (description_key md)) (\<lambda>_. calculate md p updated_item m))
      | Inr None \<Rightarrow> try_patterns md p rest item_data updated_item)"

text \<open>The outer loop over \<open>cls.subclasses\<close>; without a match the record is left as it is.\<close>

fun run_pass :: "mode \<Rightarrow> processor list \<Rightarrow> item \<Rightarrow> item \<Rightarrow> item result" where
  "run_pass md [] item_data updated_item = Inr updated_item"
| "run_pass md (p # ps) item_data updated_item =
     (case try_patterns md p (patterns p) item_data updated_item of
        Some r \<Rightarrow> r
      | None \<Rightarrow> run_pass md ps item_data updated_item)"

text \<open>
  \<open>subclasses\<close> is the class registry in registration order, that is the order in which the
  package imports the modules under \<open>processors/\<close>; it is a parameter here.
\<close>

definition process_single_item :: "processor list \<Rightarrow> item \<Rightarrow> item result" where
  "process_single_item subclasses item_data =
     bind (run_pass Deal subclasses item_data item_data) (\<lambda>updated_item.
     run_pass Coupon subclasses item_data updated_item)"

text \<open>
  \<open>PromoProcessor.process_item\<close> on a list: every record is processed and then tagged, in
  order, and the new records are appended to \<open>results\<close> only when none of them raised.
  The tagger \<open>apply_store_brands\<close> is a parameter.
\<close>

fun process_all :: "(item \<Rightarrow> item result) \<Rightarrow> processor list \<Rightarrow> item list \<Rightarrow> item list result" where
  "process_all apply_store_brands subclasses [] = Inr []"
| "process_all apply_store_brands subclasses (x # xs) =
     bind (process_single_item subclasses x) (\<lambda>y.
     bind (apply_store_brands y) (\<lambda>z.
     bind (process_all apply_store_brands subclasses xs) (\<lambda>zs. Inr (z # zs))))"

definition process_item ::
  "(item \<Rightarrow> item result) \<Rightarrow> processor list \<Rightarrow> item list \<Rightarrow> item list \<Rightarrow> item list result" where
  "process_item apply_store_brands subclasses results item_data =
     bind (process_all apply_store_brands subclasses item_data) (\<lambda>new. Inr (results @ new))"

text \<open>
  Modelled from the spec: the catalog's registration order, which the package's import
  list fixes and which is not part of the sources at hand.  The spec lists the strategies
  as Buy N Get M Free, Dollar-off, Price-per-weight, Savings.
\<close>

definition spec_catalog :: "processor list" where
  "spec_catalog = [BuyGetFreeProcessor, DollarDiscountProcessor, PricePerLbProcessor, SavingsProcessor]"

section \<open>What a match captures\<close>

text \<open>\<open>matches r p\<close>: the pattern \<open>r\<close> can consume exactly the text \<open>p\<close>.\<close>

fun matches :: "regex \<Rightarrow> string \<Rightarrow> bool" where
  "matches (One c) p = (case p of [x] \<Rightarrow> in_cls c x | _ \<Rightarrow> False)"
| "matches (Plus c) p = (p \<noteq> [] \<and> list_all (in_cls c) p)"
| "matches (Opt r) p = (p = [] \<or> matches r p)"
| "matches (Grp n r) p = matches r p"
| "matches (Cat a b) p = (\<exists>i \<in> {.. length p}. matches a (take i p) \<and> matches b (drop i p))"
| "matches Eps p = (p = [])"

text \<open>The bodies of the groups named \<open>n\<close> in a pattern, and whether every match sets such a group.\<close>

fun group_regexes :: "regex \<Rightarrow> string \<Rightarrow> regex list" where
  "group_regexes (Grp k r) n = (if k = n then [r] else []) @ group_regexes r n"
| "group_regexes (Opt r) n = group_regexes r n"
| "group_regexes (Cat a b) n = group_regexes a n @ group_regexes b n"
| "group_regexes r n = []"

fun must_capture :: "regex \<Rightarrow> string \<Rightarrow> bool" where
  "must_capture (Grp k r) n = (k = n \<or> must_capture r n)"
| "must_capture (Cat a b) n = (must_capture a n \<or> must_capture b n)"
| "must_capture r n = False"

text \<open>The group \<open>n\<close> holds a text that one of its bodies can consume.\<close>

definition captured :: "regex \<Rightarrow> string \<Rightarrow> groups \<Rightarrow> bool" where
  "captured r n g = (case g n of None \<Rightarrow> False | Some p \<Rightarrow> list_ex (\<lambda>q. matches q p) (group_regexes r n))"

text \<open>A decimal literal from its digits before and after the point, and its value.\<close>

definition decimal_text :: "string \<Rightarrow> string \<Rightarrow> string" where
  "decimal_text ip fp = (if fp = [] then ip else ip @ CHR ''.'' # fp)"

definition decimal_value :: "string \<Rightarrow> string \<Rightarrow> rat" where
  "decimal_value ip fp = of_nat (dec (ip @ fp)) / 10 ^ length fp"

section \<open>The search of a pass\<close>

text \<open>
  The catalog entries in the order in which the two loops visit them, and the search the
  loops perform on a description, without the strategy call: the first entry whose
  pattern is found, with its match.
\<close>

definition entries :: "processor list \<Rightarrow> (processor \<times> regex) list" where
  "entries ps = concat (map (\<lambda>p. map (Pair p) (patterns p)) ps)"

fun first_match :: "(processor \<times> regex) list \<Rightarrow> string \<Rightarrow> (processor \<times> groups) option" where
  "first_match [] d = None"
| "first_match ((p, pattern) # es) d =
     (case re_search pattern d of Some m \<Rightarrow> Some (p, m) | None \<Rightarrow> first_match es d)"

text \<open>The text a pass searches: the description, or the empty text when the key is missing.\<close>

definition description :: "item \<Rightarrow> mode \<Rightarrow> string option" where
  "description it md =
     (case it (description_key md) of None \<Rightarrow> Some [] | Some (Str d) \<Rightarrow> Some d | Some (Num x) \<Rightarrow> None)"

section \<open>Notions used in the properties\<close>


text \<open>
  The number a group of digits denotes (0 when the group took no part in the match), and
  the record a deal strategy returns for a total \<open>v\<close> and a unit price \<open>u\<close> before rounding.
\<close>

definition group_int :: "groups \<Rightarrow> string \<Rightarrow> int" where
  "group_int m n = (case m n of None \<Rightarrow> 0 | Some s \<Rightarrow> int (dec s))"



text \<open>The currency symbol and the thousands separator of a price text.\<close>

definition currency_char :: "char \<Rightarrow> bool" where
  "currency_char c = (c = CHR ''$'' \<or> c = CHR '','')"

text \<open>The first value of a list of lookups that is present and truthy.\<close>

fun first_truthy :: "pyval option list \<Rightarrow> pyval option" where
  "first_truthy [] = None"
| "first_truthy (None # vs) = first_truthy vs"
| "first_truthy (Some v # vs) = (if truthy v then Some v else first_truthy vs)"




section \<open>Sample records\<close>

definition plain_item :: item where
  "plain_item = [''volume_deals_description'' \<mapsto> Str ''Fresh produce'',
            ''digital_coupon_short_description'' \<mapsto> Str [],
            ''regular_price'' \<mapsto> Num 2, ''sale_price'' \<mapsto> Str [], ''weight'' \<mapsto> Str ''1 lb'']"


definition per_lb_coupon_item :: item where
  "per_lb_coupon_item = [''volume_deals_description'' \<mapsto> Str [],
            ''digital_coupon_short_description'' \<mapsto> Str ''$2.99/lb'',
            ''regular_price'' \<mapsto> Num 5, ''sale_price'' \<mapsto> Str [], ''weight'' \<mapsto> Num 2]"


definition missing_price_item :: item where
  "missing_price_item = [''volume_deals_description'' \<mapsto> Str ''Buy 4, Get 1 Free'',
            ''digital_coupon_short_description'' \<mapsto> Str ''$1 off'',
            ''regular_price'' \<mapsto> Str [], ''sale_price'' \<mapsto> Str [], ''price'' \<mapsto> Num 10]"




definition dollar_text_item :: item where
  "dollar_text_item = [''volume_deals_description'' \<mapsto> Str [],
            ''digital_coupon_short_description'' \<mapsto> Str ''Buy 2, Get 1 Free'',
            ''regular_price'' \<mapsto> Str ''$5.99'', ''sale_price'' \<mapsto> Str ''$4.99'']"




definition zero_unit_price_item :: item where
  "zero_unit_price_item = [''digital_coupon_short_description'' \<mapsto> Str ''Buy 2, Get 1 Free'',
             ''unit_price'' \<mapsto> Num 0, ''sale_price'' \<mapsto> Num 3, ''regular_price'' \<mapsto> Num 4]"

chapter \<open>Properties\<close>

section \<open>Basic facts\<close>

lemma bind_simps [simp]: "bind (Inl e) f = Inl e" "bind (Inr x) f = f x"
  by (simp_all add: bind_def)

section \<open>The base price of the Buy N Get M coupon\<close>





section \<open>Matching\<close>

lemma rx_match_sound:
  "(s', g') \<in> set (rx_match r (s, g)) \<Longrightarrow> \<exists>p. s = p @ s' \<and> matches r p"
proof (induction r arbitrary: s g s' g')
  case (One c)
  then show ?case by (auto split: list.splits if_splits)
next
  case (Plus c)
  then obtain j where j: "1 \<le> j" "j \<le> length (takeWhile (in_cls c) s)" "s' = drop j s"
    by auto
  have "take j s = take j (takeWhile (in_cls c) s)"
    using j(2) by (metis append_eq_conv_conj takeWhile_dropWhile_id take_all_iff take_append min.absorb2 append_take_drop_id length_take take_take)
  then have "list_all (in_cls c) (take j s)"
    by (metis in_set_takeD list_all_iff set_takeWhileD)
  moreover have "take j s \<noteq> []" using j
    by (metis One_nat_def Suc_le_eq length_takeWhile_le less_le_trans not_less take_eq_Nil list.size(3) not_one_le_zero order.trans)
  ultimately show ?case using j(3) by (intro exI [of _ "take j s"]) simp
next
  case (Opt r)
  then show ?case by fastforce
next
  case (Grp n r)
  then show ?case by fastforce
next
  case (Cat a b)
  from Cat.prems obtain s1 g1 where m: "(s1, g1) \<in> set (rx_match a (s, g))"
    "(s', g') \<in> set (rx_match b (s1, g1))" by auto
  from Cat.IH(1) [OF m(1)] obtain p where p: "s = p @ s1" "matches a p" by blast
  from Cat.IH(2) [OF m(2)] obtain q where q: "s1 = q @ s'" "matches b q" by blast
  have "matches (Cat a b) (p @ q)"
    using p(2) q(2) by (auto intro!: bexI [of _ "length p"])
  then show ?case using p(1) q(1) by (intro exI [of _ "p @ q"]) simp
next
  case Eps
  then show ?case by simp
qed

lemma captured_iff:
  "captured r n g \<longleftrightarrow> (\<exists>p. g n = Some p \<and> (\<exists>q \<in> set (group_regexes r n). matches q p))"
  by (auto simp: captured_def list_ex_iff split: option.splits)

lemma captured_append:
  "captured a n g \<or> captured b n g \<Longrightarrow> captured (Cat a b) n g"
  by (auto simp: captured_iff)

lemma rx_match_groups:
  "(s', g') \<in> set (rx_match r (s, g)) \<Longrightarrow>
     (must_capture r n \<longrightarrow> captured r n g') \<and> (g' n = g n \<or> captured r n g')"
proof (induction r arbitrary: s g s' g')
  case (One c)
  then show ?case by (auto split: list.splits if_splits)
next
  case (Plus c)
  then show ?case by auto
next
  case (Opt r)
  from Opt.prems have "(s', g') \<in> set (rx_match r (s, g)) \<or> g' = g" by auto
  then show ?case
  proof
    assume "(s', g') \<in> set (rx_match r (s, g))"
    from Opt.IH [OF this] show ?thesis by (auto simp: captured_iff)
  next
    assume "g' = g" then show ?thesis by simp
  qed
next
  case (Grp k r)
  from Grp.prems obtain g1 where m: "(s', g1) \<in> set (rx_match r (s, g))"
    and g': "g' = g1(k \<mapsto> take (length s - length s') s)" by auto
  from rx_match_sound [OF m] obtain p where p: "s = p @ s'" "matches r p" by blast
  show ?case
  proof (cases "k = n")
    case True
    then have "captured (Grp k r) n g'" using g' p by (simp add: captured_iff)
    then show ?thesis by simp
  next
    case False
    then have "g' n = g1 n" using g' by simp
    with Grp.IH [OF m] False show ?thesis by (auto simp: captured_iff)
  qed
next
  case (Cat a b)
  from Cat.prems obtain s1 g1 where m: "(s1, g1) \<in> set (rx_match a (s, g))"
    "(s', g') \<in> set (rx_match b (s1, g1))" by auto
  note A = Cat.IH(1) [OF m(1)] and B = Cat.IH(2) [OF m(2)]
  have keep: "captured a n g1 \<Longrightarrow> g' n = g1 n \<Longrightarrow> captured (Cat a b) n g'"
    by (auto simp: captured_iff)
  have cb: "captured b n g' \<Longrightarrow> captured (Cat a b) n g'"
    by (simp add: captured_append)
  show ?case using A B keep cb by auto
next
  case Eps
  then show ?case by simp
qed

lemma re_search_Some:
  "re_search r d = Some m \<Longrightarrow> \<exists>s s'. (s', m) \<in> set (rx_match r (s, Map.empty))"
proof (induction d)
  case Nil
  then obtain s' rest where "rx_match r ([], Map.empty) = (s', m) # rest"
    by (auto split: list.splits)
  then have "(s', m) \<in> set (rx_match r ([], Map.empty))" by simp
  then show ?case by blast
next
  case (Cons x xs)
  show ?case
  proof (cases "rx_match r (x # xs, Map.empty)")
    case Nil
    with Cons show ?thesis by simp
  next
    case (Cons a rest)
    with Cons.prems have "a = (fst a, m)" by (cases a) simp
    with Cons have "(fst a, m) \<in> set (rx_match r (x # xs, Map.empty))" by simp
    then show ?thesis by blast
  qed
qed

lemma re_search_captured:
  assumes "re_search r d = Some m" "must_capture r n"
  shows "captured r n m"
proof -
  from re_search_Some [OF assms(1)] obtain s s' where "(s', m) \<in> set (rx_match r (s, Map.empty))"
    by blast
  from rx_match_groups [OF this, of n] assms(2) show ?thesis by simp
qed

lemma re_search_no_group:
  assumes "re_search r d = Some m" "group_regexes r n = []"
  shows "m n = None"
proof -
  from re_search_Some [OF assms(1)] obtain s s' where "(s', m) \<in> set (rx_match r (s, Map.empty))"
    by blast
  from rx_match_groups [OF this, of n] assms(2) show ?thesis by (auto simp: captured_iff)
qed


section \<open>Parsing numbers\<close>

lemma digit_not_space: "is_digit c \<Longrightarrow> \<not> is_space c"
  by (auto simp: is_digit_def is_space_def)

lemma digit_lower: "is_digit c \<Longrightarrow> lower_ascii c = c"
  by (auto simp: is_digit_def lower_ascii_def)

lemma digit_neq:
  "is_digit c \<Longrightarrow> c \<noteq> CHR ''-'' \<and> c \<noteq> CHR ''+'' \<and> c \<noteq> CHR ''_'' \<and> c \<noteq> CHR ''.''
      \<and> c \<noteq> CHR ''i'' \<and> c \<noteq> CHR ''n''"
  by (auto simp: is_digit_def)

lemma dot_not_digit: "\<not> is_digit CHR ''.''"
  by (simp add: is_digit_def)

lemma strip_id:
  assumes "p \<noteq> []" "\<not> is_space (hd p)" "\<not> is_space (last p)"
  shows "strip p = p"
proof -
  have "dropWhile is_space p = p" using assms by (simp add: dropWhile_eq_self_iff)
  moreover have "dropWhile is_space (rev p) = rev p"
    using assms by (simp add: dropWhile_eq_self_iff hd_rev)
  ultimately show ?thesis by (simp add: strip_def)
qed

lemma underscores_ok_none: "CHR ''_'' \<notin> set p \<Longrightarrow> underscores_ok b p"
  by (induction p arbitrary: b) auto

lemma py_float_decimal:
  assumes ip: "ip \<noteq> []" "list_all is_digit ip" and fp: "list_all is_digit fp"
  shows "py_float (decimal_text ip fp) = Inr (decimal_value ip fp)"
proof -
  let ?p = "decimal_text ip fp"
  obtain c r where c: "ip = c # r" using ip(1) by (cases ip) auto
  then have dc: "is_digit c" using ip(2) by simp
  have p: "?p = c # tl ?p" by (simp add: decimal_text_def c)
  have all: "\<forall>x \<in> set ?p. is_digit x \<or> x = CHR ''.''"
    using ip(2) fp by (auto simp: decimal_text_def list_all_iff)
  have last: "is_digit (last ?p)"
    using ip fp by (auto simp: decimal_text_def list_all_iff)
  have s: "strip ?p = ?p"
    by (rule strip_id) (use p dc last in \<open>auto simp: decimal_text_def c digit_not_space\<close>)
  have us: "CHR ''_'' \<notin> set ?p" using all by (auto simp: is_digit_def)
  have f: "filter (\<lambda>c. c \<noteq> CHR ''_'') ?p = ?p" using us by (auto simp: filter_id_conv)
  have tw: "takeWhile is_digit ?p = ip"
    using ip(2) by (auto simp: decimal_text_def list_all_iff takeWhile_append2 dot_not_digit) 
  have dw: "dropWhile is_digit ?p = (if fp = [] then [] else CHR ''.'' # fp)"
    using ip(2) by (auto simp: decimal_text_def list_all_iff dropWhile_append2 dot_not_digit)
  have tf: "takeWhile is_digit fp = fp" "dropWhile is_digit fp = []"
    using fp by (auto simp: list_all_iff)
  have "map lower_ascii (c # tl ?p) \<notin> set [''inf'', ''infinity'', ''nan'']"
    using digit_neq [OF dc] by (simp add: digit_lower [OF dc])
  then have nf: "map lower_ascii ?p \<notin> set [''inf'', ''infinity'', ''nan'']"
    using p by simp
  have sg: "(case ?p of [] \<Rightarrow> (1::rat, []) | c # r \<Rightarrow> if c = CHR ''-'' then (- 1, r)
                                else if c = CHR ''+'' then (1, r) else (1, ?p)) = (1, ?p)"
    using digit_neq [OF dc] by (subst (1) p) simp
  show ?thesis
    unfolding py_float_def s Let_def sg prod.case f tw dw
    using nf underscores_ok_none [OF us]
    by (simp add: tf exponent_def decimal_value_def ip(1))
qed

section \<open>The groups of the catalog's patterns\<close>

lemma matches_digits_int: "matches (Plus Digit) p \<Longrightarrow> py_int p = Inr (int (dec p))"
  by (simp add: py_int_def list_all_iff)

lemma captured_digits:
  assumes "captured r n m" "group_regexes r n = [Plus Digit]"
  shows "\<exists>p. m n = Some p \<and> p \<noteq> [] \<and> bind (group m n) py_int = Inr (int (dec p))"
  using assms by (auto simp: captured_iff group_def py_int_def list_all_iff)

lemma matches_decimal:
  assumes "matches (Cat (Plus Digit) (Opt (Cat (One (Ch (CHR ''.''))) f))) p"
    and f: "\<And>q. matches f q \<Longrightarrow> q \<noteq> [] \<and> list_all is_digit q"
  shows "\<exists>ip fp. p = decimal_text ip fp \<and> ip \<noteq> [] \<and> list_all is_digit ip \<and> list_all is_digit fp"
proof -
  from assms(1) obtain i where i: "matches (Plus Digit) (take i p)"
    "matches (Opt (Cat (One (Ch (CHR ''.''))) f)) (drop i p)" by auto
  let ?ip = "take i p"
  have ip: "?ip \<noteq> []" "list_all is_digit ?ip" using i(1) by (auto simp: list_all_iff)
  show ?thesis
  proof (cases "drop i p = []")
    case True
    then have "p = decimal_text ?ip []"
      by (metis append_take_drop_id append_Nil2 decimal_text_def)
    with ip show ?thesis by (intro exI [of _ ?ip] exI [of _ "[]"]) simp
  next
    case False
    with i(2) obtain j where j: "matches (One (Ch (CHR ''.''))) (take j (drop i p))"
      "matches f (drop j (drop i p))" by auto
    let ?fp = "drop j (drop i p)"
    from j(1) have "take j (drop i p) = [CHR ''.'']" by (auto split: list.splits)
    then have "drop i p = CHR ''.'' # ?fp" by (metis append_take_drop_id append_Cons append_Nil)
    then have "p = ?ip @ CHR ''.'' # ?fp" by (metis append_take_drop_id)
    moreover have "?fp \<noteq> []" "list_all is_digit ?fp" using f [OF j(2)] by auto
    ultimately have "p = decimal_text ?ip ?fp \<and> list_all is_digit ?fp" by (simp add: decimal_text_def)
    with ip show ?thesis by blast
  qed
qed

lemma matches_two_digits: "matches (Cat (One Digit) (One Digit)) q \<Longrightarrow> q \<noteq> [] \<and> list_all is_digit q"
proof -
  assume "matches (Cat (One Digit) (One Digit)) q"
  then obtain i where "matches (One Digit) (take i q)" "matches (One Digit) (drop i q)" by auto
  then obtain a b where "take i q = [a]" "drop i q = [b]" "is_digit a" "is_digit b"
    by (auto split: list.splits)
  then have "q = [a, b] \<and> is_digit a \<and> is_digit b" by (metis append_take_drop_id append_Cons append_Nil)
  then show ?thesis by auto
qed

lemma matches_plus_digits: "matches (Plus Digit) q \<Longrightarrow> q \<noteq> [] \<and> list_all is_digit q"
  by (simp add: list_all_iff)

lemma decimal_value_nonneg: "0 \<le> decimal_value ip fp"
  by (simp add: decimal_value_def)

lemma captured_decimal:
  assumes "captured r n m"
    and "group_regexes r n = [Cat (Plus Digit) (Opt (Cat (One (Ch (CHR ''.''))) f))]"
    and f: "\<And>q. matches f q \<Longrightarrow> q \<noteq> [] \<and> list_all is_digit q"
  shows "\<exists>x. bind (group m n) py_float = Inr x \<and> 0 \<le> x"
proof -
  from assms(1,2) obtain p where p: "m n = Some p"
    "matches (Cat (Plus Digit) (Opt (Cat (One (Ch (CHR ''.''))) f))) p"
    by (auto simp: captured_iff)
  from matches_decimal [OF p(2) f] obtain ip fp where
    "p = decimal_text ip fp" "ip \<noteq> []" "list_all is_digit ip" "list_all is_digit fp" by blast
  then have "py_float p = Inr (decimal_value ip fp)" by (simp add: py_float_decimal)
  with p(1) show ?thesis by (simp add: group_def decimal_value_nonneg)
qed

lemma buy_get_free_groups:
  assumes "re_search buy_get_free_pattern d = Some m"
  shows "\<exists>N M. bind (group m ''quantity'') py_int = Inr N \<and> bind (group m ''free'') py_int = Inr M
           \<and> 0 \<le> N \<and> 0 \<le> M \<and> discount_group m = None"
proof -
  have q: "captured buy_get_free_pattern ''quantity'' m"
    by (rule re_search_captured [OF assms]) (simp add: buy_get_free_pattern_def seq_def lit_def)
  have f: "captured buy_get_free_pattern ''free'' m"
    by (rule re_search_captured [OF assms]) (simp add: buy_get_free_pattern_def seq_def lit_def)
  have "m ''discount'' = None"
    by (rule re_search_no_group [OF assms]) (simp add: buy_get_free_pattern_def seq_def lit_def)
  then have d: "discount_group m = None" by (simp add: discount_group_def)
  from captured_digits [OF q] obtain qs where "bind (group m ''quantity'') py_int = Inr (int (dec qs))"
    by (auto simp: buy_get_free_pattern_def seq_def lit_def)
  moreover from captured_digits [OF f] obtain fs where "bind (group m ''free'') py_int = Inr (int (dec fs))"
    by (auto simp: buy_get_free_pattern_def seq_def lit_def)
  ultimately show ?thesis using d by auto
qed

lemma buy_get_discount_groups:
  assumes "re_search buy_get_discount_pattern d = Some m"
  shows "\<exists>N M ds X. bind (group m ''quantity'') py_int = Inr N \<and> bind (group m ''free'') py_int = Inr M
           \<and> 0 \<le> N \<and> 0 \<le> M \<and> discount_group m = Some ds \<and> py_int ds = Inr X \<and> 0 \<le> X"
proof -
  have q: "captured buy_get_discount_pattern ''quantity'' m"
    by (rule re_search_captured [OF assms]) (simp add: buy_get_discount_pattern_def seq_def lit_def)
  have f: "captured buy_get_discount_pattern ''free'' m"
    by (rule re_search_captured [OF assms]) (simp add: buy_get_discount_pattern_def seq_def lit_def)
  have x: "captured buy_get_discount_pattern ''discount'' m"
    by (rule re_search_captured [OF assms]) (simp add: buy_get_discount_pattern_def seq_def lit_def)
  from captured_digits [OF q] obtain qs where "bind (group m ''quantity'') py_int = Inr (int (dec qs))"
    by (auto simp: buy_get_discount_pattern_def seq_def lit_def)
  moreover from captured_digits [OF f] obtain fs where "bind (group m ''free'') py_int = Inr (int (dec fs))"
    by (auto simp: buy_get_discount_pattern_def seq_def lit_def)
  moreover from captured_digits [OF x] obtain ds where "m ''discount'' = Some ds" "ds \<noteq> []"
    "bind (group m ''discount'') py_int = Inr (int (dec ds))"
    by (auto simp: buy_get_discount_pattern_def seq_def lit_def)
  then have "discount_group m = Some ds \<and> py_int ds = Inr (int (dec ds))"
    by (simp add: discount_group_def group_def)
  ultimately show ?thesis by auto
qed

lemma dollar_discount_groups:
  assumes "re_search dollar_discount_pattern d = Some m"
  shows "\<exists>x. bind (group m ''discount'') py_float = Inr x \<and> 0 \<le> x"
proof -
  have c: "captured dollar_discount_pattern ''discount'' m"
    by (rule re_search_captured [OF assms]) (simp add: dollar_discount_pattern_def seq_def lit_def)
  show ?thesis
  proof (rule captured_decimal [OF c, where f = "Plus Digit"])
    show "group_regexes dollar_discount_pattern (''discount'') = [Cat (Plus Digit) (Opt (Cat (One (Ch (CHR ''.''))) (Plus Digit)))]"
      by (simp add: dollar_discount_pattern_def seq_def lit_def)
  qed (rule matches_plus_digits)
qed

lemma price_per_lb_groups:
  assumes "re_search price_per_lb_pattern d = Some m"
  shows "\<exists>x. bind (group m ''price_per_lb'') py_float = Inr x \<and> 0 \<le> x"
proof -
  have c: "captured price_per_lb_pattern ''price_per_lb'' m"
    by (rule re_search_captured [OF assms]) (simp add: price_per_lb_pattern_def seq_def lit_def)
  show ?thesis
  proof (rule captured_decimal [OF c, where f = "Cat (One Digit) (One Digit)"])
    show "group_regexes price_per_lb_pattern (''price_per_lb'') = [Cat (Plus Digit) (Opt (Cat (One (Ch (CHR ''.''))) (Cat (One Digit) (One Digit))))]"
      by (simp add: price_per_lb_pattern_def seq_def lit_def)
  qed (rule matches_two_digits)
qed

lemma savings_groups:
  assumes "re_search savings_pattern d = Some m"
  shows "\<exists>x. bind (group m ''savings'') py_float = Inr x \<and> 0 \<le> x"
proof -
  have c: "captured savings_pattern ''savings'' m"
    by (rule re_search_captured [OF assms]) (simp add: savings_pattern_def seq_def lit_def)
  show ?thesis
  proof (rule captured_decimal [OF c, where f = "Cat (One Digit) (One Digit)"])
    show "group_regexes savings_pattern (''savings'') = [Cat (Plus Digit) (Opt (Cat (One (Ch (CHR ''.''))) (Cat (One Digit) (One Digit))))]"
      by (simp add: savings_pattern_def seq_def lit_def)
  qed (rule matches_two_digits)
qed

section \<open>The two loops as a search\<close>

lemma first_match_append:
  "first_match (xs @ ys) d = (case first_match xs d of None \<Rightarrow> first_match ys d | Some r \<Rightarrow> Some r)"
  by (induction xs) (auto split: option.splits)


lemma first_match_Some:
  "first_match es d = Some (p, m) \<Longrightarrow> \<exists>r. (p, r) \<in> set es \<and> re_search r d = Some m"
  by (induction es) (auto split: option.splits)


lemma entries_Cons: "entries (p # ps) = map (Pair p) (patterns p) @ entries ps"
  by (simp add: entries_def)

lemma in_entries: "(p, r) \<in> set (entries ps) \<longleftrightarrow> p \<in> set ps \<and> r \<in> set (patterns p)"
  by (auto simp: entries_def)

lemma search_description_eq:
  "description it md = Some d \<Longrightarrow> search_description r it (description_key md) = Inr (re_search r d)"
  by (auto simp: description_def search_description_def split: option.splits pyval.splits)

lemma try_patterns_first_match:
  assumes "description u md = Some d"
  shows "try_patterns md p rs item_data u =
     (case first_match (map (Pair p) rs) d of
        None \<Rightarrow> None
      | Some (q, m) \<Rightarrow> Some (bind (lookup item_data (description_key md)) (\<lambda>_. calculate md p u m)))"
  by (induction rs) (auto simp: search_description_eq [OF assms] split: option.splits)

lemma first_match_same: "first_match (map (Pair p) rs) d = Some (q, m) \<Longrightarrow> q = p"
  by (induction rs) (auto split: option.splits)

lemma run_pass_first_match:
  assumes "description u md = Some d"
  shows "run_pass md ps item_data u =
     (case first_match (entries ps) d of
        None \<Rightarrow> Inr u
      | Some (q, m) \<Rightarrow> bind (lookup item_data (description_key md)) (\<lambda>_. calculate md q u m))"
proof (induction ps)
  case Nil
  then show ?case by (simp add: entries_def)
next
  case (Cons p ps)
  show ?case
  proof (cases "first_match (map (Pair p) (patterns p)) d")
    case None
    then show ?thesis
      by (simp add: entries_Cons first_match_append try_patterns_first_match [OF assms] Cons.IH)
  next
    case (Some qm)
    obtain q m where qm: "qm = (q, m)" by (cases qm)
    with Some have "q = p" by (auto dest: first_match_same)
    with Some qm show ?thesis
      by (simp add: entries_Cons first_match_append try_patterns_first_match [OF assms])
  qed
qed

lemma run_pass_not_text:
  assumes "description u md = None" "entries ps \<noteq> []"
  shows "run_pass md ps item_data u = Inl TypeError"
  using assms(2)
proof (induction ps)
  case Nil
  then show ?case by (simp add: entries_def)
next
  case (Cons p ps)
  from assms(1) have s: "\<And>r. search_description r u (description_key md) = Inl TypeError"
    by (auto simp: description_def search_description_def split: option.splits pyval.splits)
  show ?case
  proof (cases "patterns p")
    case Nil
    with Cons show ?thesis by (simp add: entries_Cons)
  next
    case (Cons r rs)
    then show ?thesis by (simp add: s)
  qed
qed

section \<open>What the strategies and the passes change\<close>

lemma bind_eq_Inr: "bind r f = Inr y \<longleftrightarrow> (\<exists>x. r = Inr x \<and> f x = Inr y)"
  by (cases r) auto

lemma py_round2_Inr: "py_round2 v = Inr w \<longleftrightarrow> (\<exists>x. v = Num x \<and> w = Num (round2 x))"
  by (cases v) (auto simp: py_round2_def)

lemma calculate_deal_shape:
  assumes "calculate_deal p it m = Inr r"
  shows "\<exists>a b. r = it(''volume_deals_price'' \<mapsto> Num (round2 a), ''unit_price'' \<mapsto> Num (round2 b),
                      ''digital_coupon_price'' \<mapsto> Str [])"
proof (cases p)
  case BuyGetFreeProcessor
  with assms show ?thesis by (auto simp: bind_eq_Inr py_round2_Inr)
next
  case DollarDiscountProcessor
  with assms show ?thesis by (auto simp: bind_eq_Inr py_round2_Inr)
next
  case PricePerLbProcessor
  with assms show ?thesis by (auto simp: bind_eq_Inr py_round2_Inr)
next
  case SavingsProcessor
  with assms show ?thesis by (auto simp: bind_eq_Inr py_round2_Inr)
qed

lemma calculate_coupon_shape:
  assumes "calculate_coupon p it m = Inr r"
  shows "\<exists>b c. r = it(''unit_price'' \<mapsto> Num (round2 b), ''digital_coupon_price'' \<mapsto> Num c)"
proof (cases p)
  case BuyGetFreeProcessor
  with assms show ?thesis by (auto simp: bind_eq_Inr py_round2_Inr)
next
  case DollarDiscountProcessor
  with assms show ?thesis by (auto simp: bind_eq_Inr py_round2_Inr)
next
  case PricePerLbProcessor
  with assms show ?thesis by (auto simp: bind_eq_Inr py_round2_Inr)
next
  case SavingsProcessor
  with assms show ?thesis by (auto simp: bind_eq_Inr py_round2_Inr)
qed

lemma run_pass_cases:
  assumes "run_pass md ps item_data u = Inr r"
  shows "r = u \<or> (\<exists>q m. q \<in> set ps \<and> calculate md q u m = Inr r)"
proof (cases "description u md")
  case None
  show ?thesis
  proof (cases "entries ps = []")
    case True
    then have "first_match (entries ps) [] = None" by simp
    moreover have "\<And>d. first_match (entries ps) d = None" using True by simp
    ultimately show ?thesis using assms True
      by (induction ps) (auto simp: entries_Cons split: list.splits option.splits)
  next
    case False
    from run_pass_not_text [OF None False] assms show ?thesis by simp
  qed
next
  case (Some d)
  show ?thesis
  proof (cases "first_match (entries ps) d")
    case None
    with assms show ?thesis by (simp add: run_pass_first_match [OF Some])
  next
    case (Some qm)
    obtain q m where qm: "qm = (q, m)" by (cases qm)
    from first_match_Some [of "entries ps" d q m] Some qm have "q \<in> set ps"
      by (auto simp: in_entries)
    moreover from assms Some qm \<open>description u md = Some d\<close> have "calculate md q u m = Inr r"
      by (auto simp: run_pass_first_match [of u md d] bind_eq_Inr)
    ultimately show ?thesis by blast
  qed
qed


lemma calculate_preserves:
  assumes "calculate md p u m = Inr r"
    and "k \<noteq> ''volume_deals_price''" "k \<noteq> ''unit_price''" "k \<noteq> ''digital_coupon_price''"
  shows "r k = u k"
proof (cases md)
  case Deal
  with assms(1) calculate_deal_shape [of p u m r] assms(2-) show ?thesis by auto
next
  case Coupon
  with assms(1) calculate_coupon_shape [of p u m r] assms(2-) show ?thesis by auto
qed

lemma run_pass_preserves:
  assumes "run_pass md ps item_data u = Inr r"
    and "k \<noteq> ''volume_deals_price''" "k \<noteq> ''unit_price''" "k \<noteq> ''digital_coupon_price''"
  shows "r k = u k"
  using run_pass_cases [OF assms(1)] calculate_preserves [OF _ assms(2-)] by blast


section \<open>Pass-through fields\<close>




lemma description_Str: "it (description_key md) = Some (Str d) \<Longrightarrow> description it md = Some d"
  by (simp add: description_def)

lemma run_pass_match:
  assumes "u (description_key md) = Some (Str d)" "item_data (description_key md) = Some (Str d')"
    and "first_match (entries ps) d = Some (p, m)"
  shows "run_pass md ps item_data u = calculate md p u m"
  using assms by (simp add: run_pass_first_match [OF description_Str] lookup_def)

lemma run_pass_no_match:
  assumes "description u md = Some d" "first_match (entries ps) d = None"
  shows "run_pass md ps item_data u = Inr u"
  using assms by (simp add: run_pass_first_match)

section \<open>The price fields of a processed record\<close>




section \<open>The unguarded \<open>unit_price\<close> of the price-per-weight coupon\<close>

text \<open>
  C9.  A record without a \<open>unit_price\<close> key, whose deal pass matches nothing and whose
  \<open>digital_coupon_short_description\<close> selects the price-per-weight strategy, makes
  \<open>process_single_item\<close> raise \<open>KeyError\<close>: the strategy reads \<open>item_data['unit_price']\<close>
  without a default.  The witness is such a record.
\<close>

theorem price_per_lb_coupon_key_error:
  assumes "it ''unit_price'' = None"
    and "description it Deal = Some d" "first_match (entries subclasses) d = None"
    and "it ''digital_coupon_short_description'' = Some (Str c)"
    and "first_match (entries subclasses) c = Some (PricePerLbProcessor, m)"
  shows "process_single_item subclasses it = Inl KeyError"
proof -
  have deal: "run_pass Deal subclasses it it = Inr it"
    by (rule run_pass_no_match [OF assms(2,3)])
  from first_match_Some [OF assms(5)] have "re_search price_per_lb_pattern c = Some m"
    by (auto simp: in_entries)
  from price_per_lb_groups [OF this] obtain x where
    x: "bind (group m ''price_per_lb'') py_float = Inr x" by blast
  have "calculate_coupon PricePerLbProcessor it m = Inl KeyError"
    using x assms(1) by (auto simp: bind_eq_Inr lookup_def)
  moreover have "run_pass Coupon subclasses it it = calculate Coupon PricePerLbProcessor it m"
    by (rule run_pass_match [OF _ _ assms(5)]) (simp_all add: assms(4))
  ultimately show ?thesis by (simp add: process_single_item_def deal)
qed

theorem price_per_lb_coupon_key_error_witness:
  "per_lb_coupon_item ''unit_price'' = None
   \<and> per_lb_coupon_item ''digital_coupon_short_description'' = Some (Str ''$2.99/lb'')
   \<and> re_search price_per_lb_pattern ''$2.99/lb'' \<noteq> None
   \<and> process_single_item spec_catalog per_lb_coupon_item = Inl KeyError"
proof -
  have a: "per_lb_coupon_item ''unit_price'' = None" by (simp add: per_lb_coupon_item_def)
  have b: "description per_lb_coupon_item Deal = Some []" by (simp add: per_lb_coupon_item_def description_def)
  have "Option.is_none (first_match (entries spec_catalog) [])" by code_simp
  then have c: "first_match (entries spec_catalog) [] = None" by (simp add: Option.is_none_def)
  have d: "per_lb_coupon_item ''digital_coupon_short_description'' = Some (Str ''$2.99/lb'')"
    by (simp add: per_lb_coupon_item_def)
  have "(case first_match (entries spec_catalog) ''$2.99/lb'' of
           Some (p, m) \<Rightarrow> p = PricePerLbProcessor | None \<Rightarrow> False)" by code_simp
  then obtain m where e: "first_match (entries spec_catalog) ''$2.99/lb'' = Some (PricePerLbProcessor, m)"
    by (auto split: option.splits)
  from first_match_Some [OF e] have f: "re_search price_per_lb_pattern ''$2.99/lb'' \<noteq> None"
    by (auto simp: in_entries)
  from price_per_lb_coupon_key_error [OF a b c d e] a d f show ?thesis by simp
qed

section \<open>Pattern precedence\<close>



section \<open>A strategy that raises\<close>

lemma process_all_raises:
  assumes "x \<in> set xs" "process_single_item ps x = Inl e"
  shows "isl (process_all tag ps xs)"
  using assms(1)
proof (induction xs)
  case Nil
  then show ?case by simp
next
  case (Cons y ys)
  show ?case
  proof (cases "y = x")
    case True
    then show ?thesis by (simp add: assms(2))
  next
    case False
    with Cons have "isl (process_all tag ps ys)" by simp
    then show ?thesis by (auto simp: bind_def split: sum.splits)
  qed
qed

text \<open>
  C3 (amended).  Nothing catches an exception of a strategy.  When the strategy chosen
  by the deal pass raises, \<open>process_single_item\<close> raises the same exception and the coupon
  pass does not run; when the strategy chosen by the coupon pass raises,
  \<open>process_single_item\<close> raises the same exception; and a batch that contains a record on
  which \<open>process_single_item\<close> raises makes \<open>process_item\<close> raise, with no result appended.
\<close>

theorem strategy_exception_escapes:
  "(it ''volume_deals_description'' = Some (Str d)
      \<and> first_match (entries subclasses) d = Some (p, m)
      \<and> calculate_deal p it m = Inl e
    \<longrightarrow> process_single_item subclasses it = Inl e)
   \<and> (run_pass Deal subclasses it it = Inr u
      \<and> u ''digital_coupon_short_description'' = Some (Str c)
      \<and> first_match (entries subclasses) c = Some (q, m')
      \<and> calculate_coupon q u m' = Inl e
    \<longrightarrow> process_single_item subclasses it = Inl e)
   \<and> (x \<in> set xs \<and> process_single_item subclasses x = Inl e
    \<longrightarrow> isl (process_item apply_store_brands subclasses results xs))"
proof (intro conjI impI)
  assume h: "it ''volume_deals_description'' = Some (Str d)
      \<and> first_match (entries subclasses) d = Some (p, m) \<and> calculate_deal p it m = Inl e"
  then have "run_pass Deal subclasses it it = calculate Deal p it m"
    by (intro run_pass_match [of it Deal d it d]) simp_all
  with h show "process_single_item subclasses it = Inl e"
    by (simp add: process_single_item_def)
next
  assume h: "run_pass Deal subclasses it it = Inr u
      \<and> u ''digital_coupon_short_description'' = Some (Str c)
      \<and> first_match (entries subclasses) c = Some (q, m')
      \<and> calculate_coupon q u m' = Inl e"
  then have "it ''digital_coupon_short_description'' = u ''digital_coupon_short_description''"
    using run_pass_preserves [of Deal subclasses it it u "''digital_coupon_short_description''"]
    by simp
  with h have "run_pass Coupon subclasses it u = calculate Coupon q u m'"
    by (intro run_pass_match [of u Coupon c it c]) simp_all
  with h show "process_single_item subclasses it = Inl e"
    by (simp add: process_single_item_def)
next
  assume "x \<in> set xs \<and> process_single_item subclasses x = Inl e"
  then have "isl (process_all apply_store_brands subclasses xs)"
    by (auto intro: process_all_raises)
  then show "isl (process_item apply_store_brands subclasses results xs)"
    by (auto simp: process_item_def bind_def split: sum.splits)
qed

text \<open>
  The claim as stated fails: on a record whose \<open>regular_price\<close> is the empty text and
  whose deal description is a Buy N Get M Free promotion, the strategy raises
  \<open>TypeError\<close>, and so do \<open>process_single_item\<close> and the batch run.
\<close>

theorem strategy_exception_counterexample:
  "(case process_single_item spec_catalog missing_price_item of Inl e \<Rightarrow> e = TypeError | Inr r \<Rightarrow> False)
   \<and> (case process_item Inr spec_catalog [] [missing_price_item, plain_item] of Inl e \<Rightarrow> e = TypeError | Inr rs \<Rightarrow> False)"
  by code_simp

theorem strategy_exception_escapes_witness:
  "process_single_item spec_catalog missing_price_item = Inl TypeError
   \<and> isl (process_item Inr spec_catalog [] [missing_price_item, plain_item])
   \<and> process_single_item spec_catalog per_lb_coupon_item = Inl KeyError"
proof -
  let ?d = "''Buy 4, Get 1 Free''"
  have a: "missing_price_item ''volume_deals_description'' = Some (Str ?d)" by (simp add: missing_price_item_def)
  have "(case first_match (entries spec_catalog) ?d of
           Some (p, m) \<Rightarrow> p = BuyGetFreeProcessor
             \<and> (case calculate_deal BuyGetFreeProcessor missing_price_item m of Inl e \<Rightarrow> e = TypeError | Inr r \<Rightarrow> False)
         | None \<Rightarrow> False)" by code_simp
  then obtain m where b: "first_match (entries spec_catalog) ?d = Some (BuyGetFreeProcessor, m)"
    and c': "(case calculate_deal BuyGetFreeProcessor missing_price_item m of Inl e \<Rightarrow> e = TypeError | Inr r \<Rightarrow> False)"
    by (auto split: option.splits simp del: calculate_deal.simps)
  from c' have c: "calculate_deal BuyGetFreeProcessor missing_price_item m = Inl TypeError"
    by (cases "calculate_deal BuyGetFreeProcessor missing_price_item m") (simp_all del: calculate_deal.simps)
  note t = strategy_exception_escapes [of missing_price_item ?d spec_catalog BuyGetFreeProcessor m TypeError
     undefined undefined undefined undefined missing_price_item "[missing_price_item, plain_item]" Inr "[]"]
  from t a b c have 1: "process_single_item spec_catalog missing_price_item = Inl TypeError" by blast
  with t have 2: "isl (process_item Inr spec_catalog [] [missing_price_item, plain_item])" by simp
  let ?c = "''$2.99/lb''"
  have "Option.is_none (first_match (entries spec_catalog) [])" by code_simp
  then have "first_match (entries spec_catalog) [] = None" by (simp add: Option.is_none_def)
  then have e: "run_pass Deal spec_catalog per_lb_coupon_item per_lb_coupon_item = Inr per_lb_coupon_item"
    by (intro run_pass_no_match [of per_lb_coupon_item Deal "[]"]) (simp_all add: per_lb_coupon_item_def description_def)
  have f: "per_lb_coupon_item ''digital_coupon_short_description'' = Some (Str ?c)" by (simp add: per_lb_coupon_item_def)
  have "(case first_match (entries spec_catalog) ?c of
           Some (p, m) \<Rightarrow> p = PricePerLbProcessor
             \<and> (case calculate_coupon PricePerLbProcessor per_lb_coupon_item m of Inl e \<Rightarrow> e = KeyError | Inr r \<Rightarrow> False)
         | None \<Rightarrow> False)" by code_simp
  then obtain m' where g: "first_match (entries spec_catalog) ?c = Some (PricePerLbProcessor, m')"
    and h': "(case calculate_coupon PricePerLbProcessor per_lb_coupon_item m' of Inl e \<Rightarrow> e = KeyError | Inr r \<Rightarrow> False)"
    by (auto split: option.splits simp del: calculate_coupon.simps)
  from h' have h: "calculate_coupon PricePerLbProcessor per_lb_coupon_item m' = Inl KeyError"
    by (cases "calculate_coupon PricePerLbProcessor per_lb_coupon_item m'") (simp_all del: calculate_coupon.simps)
  note t' = strategy_exception_escapes [of per_lb_coupon_item undefined spec_catalog undefined undefined KeyError
     per_lb_coupon_item ?c PricePerLbProcessor m' per_lb_coupon_item "[]" Inr "[]"]
  from t' e f g h have 3: "process_single_item spec_catalog per_lb_coupon_item = Inl KeyError" by blast
  from 1 2 3 show ?thesis by simp
qed

section \<open>Buy N Get M as a deal\<close>

lemma group_int_ok:
  assumes "captured r n m" "group_regexes r n = [Plus Digit]"
  shows "group m n = Inr (the (m n)) \<and> py_int (the (m n)) = Inr (group_int m n)
         \<and> m n \<noteq> None \<and> m n \<noteq> Some []"
  using assms by (auto simp: captured_iff group_def py_int_def list_all_iff group_int_def)

lemma buy_get_groups:
  assumes "first_match (entries ps) d = Some (BuyGetFreeProcessor, m)"
  shows "group m ''quantity'' = Inr (the (m ''quantity''))"
    "py_int (the (m ''quantity'')) = Inr (group_int m ''quantity'')"
    "group m ''free'' = Inr (the (m ''free''))"
    "py_int (the (m ''free'')) = Inr (group_int m ''free'')"
    "discount_group m = None \<or>
      (discount_group m = Some (the (m ''discount''))
       \<and> py_int (the (m ''discount'')) = Inr (group_int m ''discount''))"
proof -
  from first_match_Some [OF assms] have
    c: "re_search buy_get_free_pattern d = Some m \<or> re_search buy_get_discount_pattern d = Some m"
    by (auto simp: in_entries)
  have q: "captured buy_get_free_pattern ''quantity'' m \<or> captured buy_get_discount_pattern ''quantity'' m"
    using c by (auto intro!: re_search_captured simp: buy_get_free_pattern_def buy_get_discount_pattern_def seq_def lit_def)
  then show "group m ''quantity'' = Inr (the (m ''quantity''))"
    "py_int (the (m ''quantity'')) = Inr (group_int m ''quantity'')"
    by (auto dest!: group_int_ok simp: buy_get_free_pattern_def buy_get_discount_pattern_def seq_def lit_def)
  have f: "captured buy_get_free_pattern ''free'' m \<or> captured buy_get_discount_pattern ''free'' m"
    using c by (auto intro!: re_search_captured simp: buy_get_free_pattern_def buy_get_discount_pattern_def seq_def lit_def)
  then show "group m ''free'' = Inr (the (m ''free''))"
    "py_int (the (m ''free'')) = Inr (group_int m ''free'')"
    by (auto dest!: group_int_ok simp: buy_get_free_pattern_def buy_get_discount_pattern_def seq_def lit_def)
  from c show "discount_group m = None \<or>
      (discount_group m = Some (the (m ''discount''))
       \<and> py_int (the (m ''discount'')) = Inr (group_int m ''discount''))"
  proof
    assume "re_search buy_get_free_pattern d = Some m"
    from re_search_no_group [OF this, of "''discount''"] show ?thesis
      by (simp add: discount_group_def buy_get_free_pattern_def seq_def lit_def)
  next
    assume "re_search buy_get_discount_pattern d = Some m"
    then have "captured buy_get_discount_pattern ''discount'' m"
      by (rule re_search_captured) (simp add: buy_get_discount_pattern_def seq_def lit_def)
    from group_int_ok [OF this] show ?thesis
      by (auto simp: discount_group_def buy_get_discount_pattern_def seq_def lit_def)
  qed
qed






section \<open>Price per weight as a deal\<close>






section \<open>\<open>float()\<close> on a price written with a currency symbol\<close>

lemma in_dropWhile: "c \<in> set xs \<Longrightarrow> \<not> P c \<Longrightarrow> c \<in> set (dropWhile P xs)"
  by (induction xs) auto

lemma in_strip: "c \<in> set s \<Longrightarrow> \<not> is_space c \<Longrightarrow> c \<in> set (strip s)"
  by (simp add: strip_def in_dropWhile)

lemma exponent_bad:
  assumes "c \<in> set r" "\<not> is_digit c" "c \<noteq> CHR ''e''" "c \<noteq> CHR ''E''" "c \<noteq> CHR ''+''" "c \<noteq> CHR ''-''"
  shows "exponent r = None"
proof (cases r)
  case Nil
  with assms(1) show ?thesis by simp
next
  case (Cons h t)
  show ?thesis
  proof (cases "h = CHR ''e'' \<or> h = CHR ''E''")
    case False
    with Cons show ?thesis by (simp add: exponent_def)
  next
    case True
    with Cons assms have ct: "c \<in> set t" by auto
    let ?sd = "(case t of [] \<Rightarrow> (1::int, []) | d # r' \<Rightarrow> if d = CHR ''-'' then (- 1, r')
                         else if d = CHR ''+'' then (1, r') else (1, t))"
    have "c \<in> set (snd ?sd)" using ct assms(5,6) by (cases t) auto
    then have "\<not> list_all is_digit (snd ?sd)" using assms(2) by (auto simp: list_all_iff)
    then show ?thesis using Cons True
      by (auto simp: exponent_def Let_def split: prod.splits)
  qed
qed

lemma currency_char_facts:
  assumes "currency_char c"
  shows "\<not> is_space c" "\<not> is_digit c" "c \<noteq> CHR ''e''" "c \<noteq> CHR ''E''" "c \<noteq> CHR ''+''"
    "c \<noteq> CHR ''-''" "c \<noteq> CHR ''_''" "c \<noteq> CHR ''.''" "lower_ascii c = c"
    "c \<notin> set ''infinity''" "c \<notin> set ''nan''"
  using assms by (auto simp: currency_char_def is_space_def is_digit_def lower_ascii_def)

lemma py_float_rejects:
  assumes c: "c \<in> set s" "currency_char c"
  shows "py_float s = Inl ValueError"
proof -
  note f = currency_char_facts [OF c(2)]
  let ?t = "strip s"
  let ?su = "(case ?t of [] \<Rightarrow> (1::rat, []) | h # r \<Rightarrow> if h = CHR ''-'' then (- 1, r)
                                else if h = CHR ''+'' then (1, r) else (1, ?t))"
  let ?u = "snd ?su"
  have t: "c \<in> set ?t" using c(1) f(1) by (rule in_strip)
  have u: "c \<in> set ?u" using t f(5,6) by (cases ?t) auto
  have nf: "map lower_ascii ?u \<notin> set [''inf'', ''infinity'', ''nan'']"
  proof
    assume "map lower_ascii ?u \<in> set [''inf'', ''infinity'', ''nan'']"
    then have "set (map lower_ascii ?u) \<subseteq> set ''infinity'' \<union> set ''nan''" by auto
    moreover have "lower_ascii c \<in> set (map lower_ascii ?u)" using u by simp
    ultimately show False using f(9,10,11) by auto
  qed
  let ?v = "filter (\<lambda>c. c \<noteq> CHR ''_'') ?u"
  have v: "c \<in> set ?v" using u f(7) by simp
  let ?r1 = "dropWhile is_digit ?v"
  have r1: "c \<in> set ?r1" using v f(2) by (rule in_dropWhile)
  let ?fr = "(case ?r1 of [] \<Rightarrow> ([], []) | h # r \<Rightarrow> if h = CHR ''.'' then (takeWhile is_digit r, dropWhile is_digit r)
                                       else ([], ?r1))"
  have "c \<in> set (snd ?fr)"
  proof (cases ?r1)
    case Nil
    with r1 show ?thesis by simp
  next
    case (Cons h r)
    show ?thesis
    proof (cases "h = CHR ''.''")
      case True
      with Cons r1 f(8) have "c \<in> set r" by auto
      then have "c \<in> set (dropWhile is_digit r)" using f(2) by (rule in_dropWhile)
      with Cons True show ?thesis by simp
    next
      case False
      with Cons r1 show ?thesis by simp
    qed
  qed
  then have e: "exponent (snd ?fr) = None"
    using f(2,3,4,5,6) by (rule exponent_bad)
  show ?thesis
    unfolding py_float_def Let_def
    using nf e by (simp add: case_prod_unfold)
qed

section \<open>The base price of the Buy N Get M coupon, in full\<close>

lemma coupon_price_first_truthy:
  "coupon_price it =
     (case first_truthy [it ''unit_price'', it ''sale_price'', it ''regular_price''] of
        None \<Rightarrow> Inr 0 | Some (Num x) \<Rightarrow> Inr x | Some (Str s) \<Rightarrow> py_float s)"
  by (auto simp: coupon_price_def coupon_price_value_def get_or_def to_float_def
           split: option.splits pyval.splits)

lemma buy_get_coupon_raises:
  assumes "first_match (entries ps) d = Some (BuyGetFreeProcessor, m)" "coupon_price it = Inl e"
  shows "calculate_coupon BuyGetFreeProcessor it m = Inl e"
  using buy_get_groups [OF assms(1)] assms(2) by auto

text \<open>
  C7 (amended).  In the Buy N Get M coupon computation the base price is the first of
  \<open>unit_price\<close>, \<open>sale_price\<close>, \<open>regular_price\<close> that is present and truthy, and 0 when
  none is.  A number is used as it is.  A text is handed to \<open>float()\<close> unchanged: no
  currency symbol and no thousands separator is stripped, so a text that contains \<open>$\<close> or a
  comma raises \<open>ValueError\<close>, and the exception leaves \<open>calculate_coupon\<close>.
\<close>

theorem coupon_base_price:
  "coupon_price it =
     (case first_truthy [it ''unit_price'', it ''sale_price'', it ''regular_price''] of
        None \<Rightarrow> Inr 0 | Some (Num x) \<Rightarrow> Inr x | Some (Str s) \<Rightarrow> py_float s)
   \<and> (c \<in> set s \<and> currency_char c \<longrightarrow> py_float s = Inl ValueError)
   \<and> (first_match (entries subclasses) d = Some (BuyGetFreeProcessor, m) \<and> coupon_price it = Inl e
        \<longrightarrow> calculate_coupon BuyGetFreeProcessor it m = Inl e)"
  using coupon_price_first_truthy [of it] py_float_rejects [of c s]
    buy_get_coupon_raises [of subclasses d m it e]
  by blast

text \<open>
  The claim as stated fails on a record without \<open>unit_price\<close> whose \<open>sale_price\<close> is the
  text \<open>$4.99\<close>: the base price is not 4.99, the computation raises \<open>ValueError\<close>.
\<close>

theorem coupon_base_price_counterexample:
  "dollar_text_item ''unit_price'' = None \<and> dollar_text_item ''sale_price'' = Some (Str ''$4.99'')
   \<and> (case coupon_price dollar_text_item of Inl e \<Rightarrow> e = ValueError | Inr x \<Rightarrow> False)
   \<and> (case process_single_item spec_catalog dollar_text_item of Inl e \<Rightarrow> e = ValueError | Inr r \<Rightarrow> False)"
proof -
  have "dollar_text_item ''unit_price'' = None \<and> dollar_text_item ''sale_price'' = Some (Str ''$4.99'')"
    by (simp add: dollar_text_item_def)
  moreover have "(case coupon_price dollar_text_item of Inl e \<Rightarrow> e = ValueError | Inr x \<Rightarrow> False)"
    by code_simp
  moreover have "(case process_single_item spec_catalog dollar_text_item of Inl e \<Rightarrow> e = ValueError | Inr r \<Rightarrow> False)"
    by code_simp
  ultimately show ?thesis by simp
qed

theorem coupon_base_price_witness:
  "coupon_price dollar_text_item = Inl ValueError
   \<and> (\<exists>m. first_match (entries spec_catalog) ''Buy 2, Get 1 Free'' = Some (BuyGetFreeProcessor, m)
          \<and> calculate_coupon BuyGetFreeProcessor dollar_text_item m = Inl ValueError)
   \<and> coupon_price zero_unit_price_item = Inr 3"
proof -
  let ?d = "''Buy 2, Get 1 Free''"
  have ft: "first_truthy [dollar_text_item ''unit_price'', dollar_text_item ''sale_price'', dollar_text_item ''regular_price'']
              = Some (Str ''$4.99'')" by (simp add: dollar_text_item_def)
  have cc: "CHR ''$'' \<in> set ''$4.99'' \<and> currency_char CHR ''$''" by (simp add: currency_char_def)
  have "(case first_match (entries spec_catalog) ?d of
           Some (p, m) \<Rightarrow> p = BuyGetFreeProcessor | None \<Rightarrow> False)" by code_simp
  then obtain m where fm: "first_match (entries spec_catalog) ?d = Some (BuyGetFreeProcessor, m)"
    by (auto split: option.splits)
  note t = coupon_base_price [of dollar_text_item "CHR ''$''" "''$4.99''" spec_catalog ?d m ValueError]
  from t cc have pf: "py_float ''$4.99'' = Inl ValueError" by blast
  with t ft have 1: "coupon_price dollar_text_item = Inl ValueError" by simp
  with t fm have 2: "calculate_coupon BuyGetFreeProcessor dollar_text_item m = Inl ValueError" by blast
  have ft': "first_truthy [zero_unit_price_item ''unit_price'', zero_unit_price_item ''sale_price'', zero_unit_price_item ''regular_price'']
              = Some (Num 3)" by (simp add: zero_unit_price_item_def)
  from coupon_base_price [of zero_unit_price_item undefined undefined undefined undefined undefined undefined] ft'
  have 3: "coupon_price zero_unit_price_item = Inr 3" by simp
  from 1 2 3 fm show ?thesis by blast
qed

section \<open>Letter case\<close>











end
